theory Spec2Isabelle
  imports Complex_Main
begin

section \<open>The unwrap core: metrics, paragraphs and the joiner\<close>

text \<open>
  A shallow embedding of \<^verbatim>\<open>src/unwrap/core.py\<close>. The three classes become records,
  their methods become functions that take the object and return the updated one, the
  generator \<^verbatim>\<open>Joiner.__iter__\<close> becomes a recursive function that returns the list of
  the paragraphs it yields together with the joiner it leaves behind.

  Numbers: the module is compiled with true division, so \<^verbatim>\<open>avg\<close> and \<^verbatim>\<open>dev\<close> are
  Python floats; they are idealised as \<^typ>\<open>real\<close> here (exact division, exact square
  root). Lengths and counters are natural numbers.

  Strings: a Python string is a \<^typ>\<open>string\<close>, one \<^typ>\<open>char\<close> for one character, so
  that \<^term>\<open>length\<close> is Python's \<^verbatim>\<open>len\<close>.

  Errors: the operations of Python that can raise in this module are the division in
  \<^verbatim>\<open>avg\<close> and \<^verbatim>\<open>math.sqrt\<close> in \<^verbatim>\<open>dev\<close>. Both are modelled with a result of
  type \<open>error + real\<close>, and every caller propagates \<open>Inl\<close>.
\<close>

subsection \<open>Python primitives\<close>

datatype error = ZeroDivisionError | ValueError

definition py_truediv :: "real \<Rightarrow> real \<Rightarrow> error + real" where
  "py_truediv a b = (if b = 0 then Inl ZeroDivisionError else Inr (a / b))"

definition py_sqrt :: "real \<Rightarrow> error + real" where
  "py_sqrt x = (if x < 0 then Inl ValueError else Inr (sqrt x))"

text \<open>
  \<^verbatim>\<open>str.strip()\<close> removes the characters for which \<^verbatim>\<open>isspace\<close> holds from both ends.
  In the range of \<^typ>\<open>char\<close> these are the code points 9 to 13, 28 to 32, 133 and 160.
\<close>

definition is_space :: "char \<Rightarrow> bool" where
  "is_space c = ((of_char c :: nat) \<in> set [9, 10, 11, 12, 13, 28, 29, 30, 31, 32, 133, 160])"

definition strip :: "string \<Rightarrow> string" where
  "strip s = rev (dropWhile is_space (rev (dropWhile is_space s)))"

definition endswith :: "string \<Rightarrow> string \<Rightarrow> bool" where
  "endswith s m = (drop (length s - length m) s = m)"

subsection \<open>Metric\<close>

record Metric =
  count :: nat
  sum_m :: real
  values_m :: "real list"

definition Metric_init :: Metric where
  "Metric_init = \<lparr>count = 0, sum_m = 0, values_m = []\<rparr>"

definition Metric_add :: "Metric \<Rightarrow> real \<Rightarrow> Metric" where
  "Metric_add m v = \<lparr>count = count m + 1, sum_m = sum_m m + v, values_m = values_m m @ [v]\<rparr>"

definition avg :: "Metric \<Rightarrow> error + real" where
  "avg m = (if count m \<noteq> 0 then py_truediv (sum_m m) (real (count m)) else Inr 0)"

definition dev :: "Metric \<Rightarrow> error + real" where
  "dev m = (case avg m of
              Inl e \<Rightarrow> Inl e
            | Inr mean \<Rightarrow> py_sqrt (sum_list (map (\<lambda>v. (v - mean) ^ 2) (values_m m))))"

subsection \<open>Paragraph\<close>

record Paragraph =
  text_p :: string
  uncertain :: bool

definition Paragraph_init :: Paragraph where
  "Paragraph_init = \<lparr>text_p = [], uncertain = False\<rparr>"

definition Paragraph_empty :: "Paragraph \<Rightarrow> bool" where
  "Paragraph_empty p = (text_p p = [])"

definition Paragraph_add :: "Paragraph \<Rightarrow> string \<Rightarrow> Paragraph" where
  "Paragraph_add p line =
     (let separator = (if Paragraph_empty p then ''''
                       else if endswith (text_p p) ''-'' then ''''
                       else '' '')
      in p\<lparr>text_p := text_p p @ separator @ line\<rparr>)"

subsection \<open>Joiner\<close>

definition END_MARKS :: "string list" where
  "END_MARKS = [''.'', ''?'', ''!'']"

definition POSSIBLE_END_MARKS :: "string list" where
  "POSSIBLE_END_MARKS =
     [''...'', '':'',
      [CHR ''.'', CHR 0x22], [CHR ''.'', CHR 0x27], [CHR ''?'', CHR 0x22],
      [CHR ''?'', CHR 0x27], [CHR ''!'', CHR 0x22], [CHR ''!'', CHR 0x27],
      '')'', '']'', ''}'']"

record Joiner =
  lines :: "string list"
  first_m :: Metric
  middle_m :: Metric

definition Joiner_init :: "string list \<Rightarrow> Joiner" where
  "Joiner_init ls = \<lparr>lines = ls, first_m = Metric_init, middle_m = Metric_init\<rparr>"

text \<open>
  \<^verbatim>\<open>Joiner._is_last\<close>. The argument \<open>next_line\<close> is \<open>None\<close> at the end of the input;
  \<^verbatim>\<open>not next_line\<close> holds for \<open>None\<close> and for the empty string. Each \<^verbatim>\<open>for\<close>
  over a list of marks returns at the first mark that matches, with a result that does
  not depend on the mark, so it is a test that some mark of the list matches.
\<close>

definition is_last :: "Joiner \<Rightarrow> string \<Rightarrow> string option \<Rightarrow> bool \<Rightarrow> error + (bool \<times> bool)" where
  "is_last j line next_line is_first =
     (case next_line of
        None \<Rightarrow> Inr (True, True)
      | Some nl \<Rightarrow>
          if nl = [] then Inr (True, True)
          else
            (case avg (first_m j) of Inl e \<Rightarrow> Inl e | Inr first \<Rightarrow>
            (case avg (middle_m j) of Inl e \<Rightarrow> Inl e | Inr middle \<Rightarrow>
            (let last_threshold = first - (middle - first) in
            (case dev (first_m j) of Inl e \<Rightarrow> Inl e | Inr first_dev \<Rightarrow>
            (case dev (middle_m j) of Inl e \<Rightarrow> Inl e | Inr middle_dev \<Rightarrow>
               if middle - first > 2 * max first_dev middle_dev then
                 (let middle_threshold = (middle + first) / 2 in
                  if real (length nl) > middle_threshold then Inr (False, True)
                  else if list_ex (endswith line) END_MARKS then
                    Inr (True, real (length line)
                           < (if is_first then last_threshold else middle_threshold))
                  else if list_ex (endswith line) POSSIBLE_END_MARKS then
                    Inr (True, real (length line) < last_threshold)
                  else Inr (False, True))
               else
                 (if list_ex (endswith line) (END_MARKS @ POSSIBLE_END_MARKS) then
                    Inr (True, real (length line) < last_threshold)
                  else Inr (False, True))))))))"

text \<open>
  One turn of the \<^verbatim>\<open>while\<close> loop of \<^verbatim>\<open>Joiner.__iter__\<close>, for the stripped current
  line and the stripped next line: the paragraphs it yields, the paragraph under
  construction afterwards, and the joiner with its metrics updated.
\<close>

definition body ::
  "Joiner \<Rightarrow> Paragraph \<Rightarrow> string \<Rightarrow> string option \<Rightarrow> error + (Paragraph list \<times> Paragraph \<times> Joiner)" where
  "body j p line next_line =
     (if line = [] then
        (if Paragraph_empty p then Inr ([p, Paragraph_init], Paragraph_init, j)
         else Inr ([Paragraph_init], p, j))
      else
        (let is_first = Paragraph_empty p;
             p1 = Paragraph_add p line
         in case is_last j line next_line is_first of
              Inl e \<Rightarrow> Inl e
            | Inr (is_l, certain) \<Rightarrow>
                if is_l then Inr ([p1\<lparr>uncertain := \<not> certain\<rparr>], Paragraph_init, j)
                else if is_first then
                  Inr ([], p1, j\<lparr>first_m := Metric_add (first_m j) (real (length line))\<rparr>)
                else
                  Inr ([], p1, j\<lparr>middle_m := Metric_add (middle_m j) (real (length line))\<rparr>)))"

text \<open>
  The \<^verbatim>\<open>while\<close> loop: \<open>line\<close> is the stripped current line, the list holds the raw
  lines the iterator has not delivered yet.
\<close>

fun loop :: "Joiner \<Rightarrow> Paragraph \<Rightarrow> string \<Rightarrow> string list \<Rightarrow> error + (Paragraph list \<times> Joiner)" where
  "loop j p line [] =
     (case body j p line None of
        Inl e \<Rightarrow> Inl e
      | Inr (out, p', j') \<Rightarrow> Inr (out, j'))"
| "loop j p line (r # rs) =
     (case body j p line (Some (strip r)) of
        Inl e \<Rightarrow> Inl e
      | Inr (out, p', j') \<Rightarrow>
          (case loop j' p' (strip r) rs of
             Inl e \<Rightarrow> Inl e
           | Inr (outs, j'') \<Rightarrow> Inr (out @ outs, j'')))"

text \<open>\<^verbatim>\<open>Joiner.__iter__\<close>, run to its end: one pass over the lines.\<close>

definition iter :: "Joiner \<Rightarrow> error + (Paragraph list \<times> Joiner)" where
  "iter j = (case lines j of
               [] \<Rightarrow> Inr ([], j)
             | l # ls \<Rightarrow> loop j Paragraph_init (strip l) ls)"

text \<open>
  \<^verbatim>\<open>Joiner.iterate\<close>: \<^verbatim>\<open>range(count)\<close> is empty for a count below one, so the number
  of passes is \<open>nat cnt\<close>.
\<close>

fun iterate_n :: "nat \<Rightarrow> Joiner \<Rightarrow> error + Joiner" where
  "iterate_n 0 j = Inr j"
| "iterate_n (Suc n) j =
     (case iter j of
        Inl e \<Rightarrow> Inl e
      | Inr (ps, j') \<Rightarrow> iterate_n n j')"

definition iterate :: "int \<Rightarrow> Joiner \<Rightarrow> error + Joiner" where
  "iterate cnt j = iterate_n (nat cnt) j"

subsection \<open>What the metrics of a joiner hold\<close>

text \<open>
  The two metrics of a joiner are written only by \<^verbatim>\<open>Joiner.__iter__\<close>, which adds
  \<^verbatim>\<open>len(line)\<close>. So in every state a joiner can be in, a metric has counted and summed
  exactly the values it stores, and these values are not negative.
\<close>

definition Metric_inv :: "Metric \<Rightarrow> bool" where
  "Metric_inv m = (count m = length (values_m m) \<and> sum_m m = sum_list (values_m m)
                   \<and> (\<forall>v\<in>set (values_m m). 0 \<le> v))"

definition Joiner_inv :: "Joiner \<Rightarrow> bool" where
  "Joiner_inv j = (Metric_inv (first_m j) \<and> Metric_inv (middle_m j))"

section \<open>Basic facts\<close>

subsection \<open>Nothing raises\<close>

lemma avg_total: "\<exists>a. avg m = Inr a"
  by (simp add: avg_def py_truediv_def)

lemma dev_total: "\<exists>d. dev m = Inr d"
proof -
  obtain a where a: "avg m = Inr a" using avg_total by blast
  have "0 \<le> sum_list (map (\<lambda>v. (v - a) ^ 2) (values_m m))"
    by (rule sum_list_nonneg) auto
  then show ?thesis by (simp add: dev_def a py_sqrt_def)
qed

lemma is_last_total: "\<exists>r. is_last j line next_line is_first = Inr r"
proof -
  obtain a1 a2 d1 d2 where "avg (first_m j) = Inr a1" "avg (middle_m j) = Inr a2"
    "dev (first_m j) = Inr d1" "dev (middle_m j) = Inr d2"
    using avg_total dev_total by meson
  then show ?thesis
    by (auto simp add: is_last_def Let_def split: option.split)
qed

lemma is_last_None: "is_last j line None is_first = Inr (True, True)"
  by (simp add: is_last_def)

lemma is_last_blank: "is_last j line (Some []) is_first = Inr (True, True)"
  by (simp add: is_last_def)

lemma body_total: "\<exists>out p' j'. body j p line nxt = Inr (out, p', j')"
proof -
  obtain a b where "is_last j line nxt (Paragraph_empty p) = Inr (a, b)"
    using is_last_total by (metis surj_pair)
  then show ?thesis by (simp add: body_def Let_def)
qed

lemma loop_total: "\<exists>ps j'. loop j p line rest = Inr (ps, j')"
proof (induction rest arbitrary: j p line)
  case Nil
  obtain out p' j' where "body j p line None = Inr (out, p', j')"
    using body_total by blast
  then show ?case by simp
next
  case (Cons r rs)
  obtain out p' j' where b: "body j p line (Some (strip r)) = Inr (out, p', j')"
    using body_total by blast
  obtain outs j'' where "loop j' p' (strip r) rs = Inr (outs, j'')"
    using Cons.IH by blast
  with b show ?case by simp
qed

lemma iter_total: "\<exists>ps j'. iter j = Inr (ps, j')"
  by (cases "lines j") (simp_all add: iter_def loop_total)

lemma iterate_n_total: "\<exists>j'. iterate_n n j = Inr j'"
proof (induction n arbitrary: j)
  case 0
  show ?case by simp
next
  case (Suc n)
  obtain ps j1 where "iter j = Inr (ps, j1)" using iter_total by blast
  then show ?case using Suc.IH [of j1] by simp
qed

subsection \<open>The end of the input closes the paragraph\<close>

lemma body_None_certain:
  "line \<noteq> [] \<Longrightarrow>
   body j p line None = Inr ([(Paragraph_add p line)\<lparr>uncertain := False\<rparr>], Paragraph_init, j)"
  by (simp add: body_def is_last_None Let_def)

lemma body_blank_certain:
  "line \<noteq> [] \<Longrightarrow>
   body j p line (Some []) = Inr ([(Paragraph_add p line)\<lparr>uncertain := False\<rparr>], Paragraph_init, j)"
  by (simp add: body_def is_last_blank Let_def)

lemma loop_last_certain:
  "line \<noteq> [] \<Longrightarrow> \<forall>r\<in>set rest. strip r \<noteq> [] \<Longrightarrow>
   \<exists>ps j'. loop j p line rest = Inr (ps, j') \<and> ps \<noteq> [] \<and> \<not> uncertain (last ps)"
proof (induction rest arbitrary: j p line)
  case Nil
  then show ?case by (simp add: body_None_certain)
next
  case (Cons r rs)
  obtain out p' j' where b: "body j p line (Some (strip r)) = Inr (out, p', j')"
    using body_total by blast
  from Cons.prems have "strip r \<noteq> []" "\<forall>x\<in>set rs. strip x \<noteq> []" by simp_all
  then obtain outs j'' where l: "loop j' p' (strip r) rs = Inr (outs, j'')"
    "outs \<noteq> []" "\<not> uncertain (last outs)"
    using Cons.IH by blast
  with b show ?case by simp
qed

subsection \<open>A pass only adds to the metrics\<close>

lemma body_count:
  "body j p line nxt = Inr (out, p', j') \<Longrightarrow>
   count (first_m j) \<le> count (first_m j') \<and> count (middle_m j) \<le> count (middle_m j')"
  by (auto simp add: body_def Let_def Metric_add_def split: if_splits sum.splits prod.splits)

lemma loop_count:
  "loop j p line rest = Inr (ps, j') \<Longrightarrow>
   count (first_m j) \<le> count (first_m j') \<and> count (middle_m j) \<le> count (middle_m j')"
proof (induction rest arbitrary: j p line ps)
  case Nil
  then show ?case by (auto split: sum.splits prod.splits dest: body_count)
next
  case (Cons r rs)
  from Cons.prems obtain out p1 j1 outs where
    b: "body j p line (Some (strip r)) = Inr (out, p1, j1)" and
    l: "loop j1 p1 (strip r) rs = Inr (outs, j')"
    by (auto split: sum.splits prod.splits)
  from body_count [OF b] Cons.IH [OF l] show ?case by linarith
qed

lemma iter_count:
  "iter j = Inr (ps, j') \<Longrightarrow>
   count (first_m j) \<le> count (first_m j') \<and> count (middle_m j) \<le> count (middle_m j')"
  by (cases "lines j") (auto simp add: iter_def dest: loop_count)

lemma iterate_n_count:
  "iterate_n n j = Inr j' \<Longrightarrow>
   count (first_m j) \<le> count (first_m j') \<and> count (middle_m j) \<le> count (middle_m j')"
proof (induction n arbitrary: j)
  case 0
  then show ?case by simp
next
  case (Suc n)
  from Suc.prems obtain ps j1 where i: "iter j = Inr (ps, j1)" and r: "iterate_n n j1 = Inr j'"
    by (auto split: sum.splits prod.splits)
  from iter_count [OF i] Suc.IH [OF r] show ?case by linarith
qed

subsection \<open>The flag of the paragraph under construction\<close>

lemma body_uncertain:
  "\<not> uncertain p \<Longrightarrow> body j p line nxt = Inr (out, p', j') \<Longrightarrow>
   \<not> uncertain p' \<and> (\<forall>q\<in>set out. uncertain q \<longrightarrow> text_p q \<noteq> [])"
  by (auto simp add: body_def Let_def Paragraph_add_def Paragraph_init_def
      split: if_splits sum.splits prod.splits)

lemma loop_uncertain:
  "\<not> uncertain p \<Longrightarrow> loop j p line rest = Inr (ps, j') \<Longrightarrow>
   \<forall>q\<in>set ps. uncertain q \<longrightarrow> text_p q \<noteq> []"
proof (induction rest arbitrary: j p line ps)
  case Nil
  then show ?case by (auto split: sum.splits prod.splits dest: body_uncertain)
next
  case (Cons r rs)
  from Cons.prems(2) obtain out p1 j1 outs where
    b: "body j p line (Some (strip r)) = Inr (out, p1, j1)" and
    l: "loop j1 p1 (strip r) rs = Inr (outs, j')" and ps: "ps = out @ outs"
    by (auto split: sum.splits prod.splits)
  from body_uncertain [OF Cons.prems(1) b] have p1: "\<not> uncertain p1"
    and o: "\<forall>q\<in>set out. uncertain q \<longrightarrow> text_p q \<noteq> []" by simp_all
  from Cons.IH [OF p1 l] o ps show ?case by auto
qed

subsection \<open>The invariant of the metrics\<close>

lemma Metric_inv_init: "Metric_inv Metric_init"
  by (simp add: Metric_inv_def Metric_init_def)

lemma Metric_inv_add: "Metric_inv m \<Longrightarrow> 0 \<le> v \<Longrightarrow> Metric_inv (Metric_add m v)"
  by (simp add: Metric_inv_def Metric_add_def)

lemma Metric_inv_avg:
  assumes "Metric_inv m" "avg m = Inr a"
  shows "0 \<le> a"
proof -
  from assms(1) have "0 \<le> sum_m m" by (simp add: Metric_inv_def sum_list_nonneg)
  with assms(2) show ?thesis by (auto simp add: avg_def py_truediv_def split: if_splits)
qed

lemma Joiner_inv_init: "Joiner_inv (Joiner_init ls)"
  by (simp add: Joiner_inv_def Joiner_init_def Metric_inv_init)

lemma body_inv:
  "Joiner_inv j \<Longrightarrow> body j p line nxt = Inr (out, p', j') \<Longrightarrow> Joiner_inv j'"
  by (auto simp add: body_def Let_def Joiner_inv_def Metric_inv_add
      split: if_splits sum.splits prod.splits)

lemma loop_inv:
  "Joiner_inv j \<Longrightarrow> loop j p line rest = Inr (ps, j') \<Longrightarrow> Joiner_inv j'"
proof (induction rest arbitrary: j p line ps)
  case Nil
  then show ?case by (auto split: sum.splits prod.splits dest: body_inv)
next
  case (Cons r rs)
  from Cons.prems(2) obtain out p1 j1 outs where
    b: "body j p line (Some (strip r)) = Inr (out, p1, j1)" and
    l: "loop j1 p1 (strip r) rs = Inr (outs, j')"
    by (auto split: sum.splits prod.splits)
  from Cons.IH [OF body_inv [OF Cons.prems(1) b] l] show ?case .
qed

lemma iter_inv: "Joiner_inv j \<Longrightarrow> iter j = Inr (ps, j') \<Longrightarrow> Joiner_inv j'"
  by (cases "lines j") (auto simp add: iter_def dest: loop_inv)

lemma iterate_n_inv: "Joiner_inv j \<Longrightarrow> iterate_n n j = Inr j' \<Longrightarrow> Joiner_inv j'"
proof (induction n arbitrary: j)
  case 0
  then show ?case by simp
next
  case (Suc n)
  from Suc.prems(2) obtain ps j1 where i: "iter j = Inr (ps, j1)" and r: "iterate_n n j1 = Inr j'"
    by (auto split: sum.splits prod.splits)
  from Suc.IH [OF iter_inv [OF Suc.prems(1) i] r] show ?case .
qed

subsection \<open>Suffixes\<close>

lemma endswith_iff: "endswith s m \<longleftrightarrow> (\<exists>pre. s = pre @ m)"
proof
  assume "endswith s m"
  then have "drop (length s - length m) s = m"
    by (simp add: endswith_def)
  then have "s = take (length s - length m) s @ m"
    by (metis append_take_drop_id)
  then show "\<exists>pre. s = pre @ m" ..
next
  assume "\<exists>pre. s = pre @ m"
  then show "endswith s m" by (auto simp add: endswith_def)
qed

subsection \<open>Blank lines\<close>

text \<open>
  When the loop reaches a blank line, the paragraph under construction is empty: the line
  before, if there is one and it is not blank, saw an empty next line and closed its
  paragraph. So each blank line yields two empty paragraphs, and no other line yields one.
\<close>

lemma Paragraph_add_not_empty: "line \<noteq> [] \<Longrightarrow> \<not> Paragraph_empty (Paragraph_add p line)"
  by (simp add: Paragraph_add_def Paragraph_empty_def Let_def)

lemma body_blank_count:
  assumes "line = [] \<longrightarrow> Paragraph_empty p" and "body j p line nxt = Inr (out, p', j')"
  shows "length (filter Paragraph_empty out) = (if line = [] then 2 else 0)
         \<and> (nxt = Some [] \<longrightarrow> Paragraph_empty p')"
proof (cases "line = []")
  case True
  with assms show ?thesis
    by (auto simp add: body_def Paragraph_init_def Paragraph_empty_def)
next
  case False
  obtain a b where r: "is_last j line nxt (Paragraph_empty p) = Inr (a, b)"
    using is_last_total by (metis surj_pair)
  have e: "\<not> Paragraph_empty ((Paragraph_add p line)\<lparr>uncertain := \<not> b\<rparr>)"
    using Paragraph_add_not_empty [OF False, of p] by (simp add: Paragraph_empty_def)
  have i: "Paragraph_empty Paragraph_init"
    by (simp add: Paragraph_empty_def Paragraph_init_def)
  have "nxt = Some [] \<longrightarrow> a" using r by (auto simp add: is_last_blank)
  with assms(2) False r e i show ?thesis
    by (auto simp add: body_def Let_def split: if_splits)
qed

lemma loop_blank_count:
  "line = [] \<longrightarrow> Paragraph_empty p \<Longrightarrow> loop j p line rest = Inr (ps, j') \<Longrightarrow>
   length (filter Paragraph_empty ps) = 2 * length (filter (\<lambda>l. l = []) (line # map strip rest))"
proof (induction rest arbitrary: j p line ps)
  case Nil
  from Nil.prems(2) obtain p1 where b: "body j p line None = Inr (ps, p1, j')"
    by (auto split: sum.splits prod.splits)
  from body_blank_count [OF Nil.prems(1) b] show ?case by simp
next
  case (Cons r rs)
  from Cons.prems(2) obtain out p1 j1 outs where
    b: "body j p line (Some (strip r)) = Inr (out, p1, j1)" and
    l: "loop j1 p1 (strip r) rs = Inr (outs, j')" and ps: "ps = out @ outs"
    by (auto split: sum.splits prod.splits)
  from body_blank_count [OF Cons.prems(1) b]
  have o: "length (filter Paragraph_empty out) = (if line = [] then 2 else 0)"
    and e: "strip r = [] \<longrightarrow> Paragraph_empty p1" by simp_all
  from Cons.IH [OF e l] o ps show ?case by simp
qed

lemma iter_blank_count:
  assumes "iter j = Inr (ps, j')"
  shows "length (filter Paragraph_empty ps) = 2 * length (filter (\<lambda>l. strip l = []) (lines j))"
proof (cases "lines j")
  case Nil
  with assms show ?thesis by (simp add: iter_def)
next
  case (Cons l ls)
  with assms have "loop j Paragraph_init (strip l) ls = Inr (ps, j')"
    by (simp add: iter_def)
  moreover have "strip l = [] \<longrightarrow> Paragraph_empty Paragraph_init"
    by (simp add: Paragraph_empty_def Paragraph_init_def)
  ultimately have "length (filter Paragraph_empty ps)
      = 2 * length (filter (\<lambda>l. l = []) (strip l # map strip ls))"
    by (rule loop_blank_count [rotated])
  with Cons show ?thesis by (simp add: filter_map comp_def)
qed

section \<open>The claims\<close>

subsection \<open>Metric\<close>

text \<open>
  C5: for every metric, \<^verbatim>\<open>avg\<close> is the sum divided by the count when the count is
  positive and 0 when the count is 0, and \<^verbatim>\<open>dev\<close> is the square root of the sum of the
  squared distances of the stored values to \<^verbatim>\<open>avg\<close>, not divided by the count. After
  adding 2, 4 and 6 to a fresh metric, \<^verbatim>\<open>avg\<close> is 4 and \<^verbatim>\<open>dev\<close> is the square root
  of 8. Neither property raises.
\<close>

theorem Metric_avg_dev:
  "avg m = Inr (if count m > 0 then sum_m m / real (count m) else 0)
   \<and> dev m = Inr (sqrt (sum_list (map
         (\<lambda>v. (v - (if count m > 0 then sum_m m / real (count m) else 0)) ^ 2) (values_m m))))
   \<and> avg (Metric_add (Metric_add (Metric_add Metric_init 2) 4) 6) = Inr 4
   \<and> dev (Metric_add (Metric_add (Metric_add Metric_init 2) 4) 6) = Inr (sqrt 8)"
proof -
  let ?a = "if count m > 0 then sum_m m / real (count m) else 0"
  have a: "avg m = Inr ?a"
    by (simp add: avg_def py_truediv_def)
  have "0 \<le> sum_list (map (\<lambda>v. (v - ?a) ^ 2) (values_m m))"
    by (rule sum_list_nonneg) auto
  then have d: "dev m = Inr (sqrt (sum_list (map (\<lambda>v. (v - ?a) ^ 2) (values_m m))))"
    by (simp add: dev_def a py_sqrt_def)
  have a3: "avg (Metric_add (Metric_add (Metric_add Metric_init 2) 4) 6) = Inr 4"
    by (simp add: avg_def Metric_add_def Metric_init_def py_truediv_def)
  have d3: "dev (Metric_add (Metric_add (Metric_add Metric_init 2) 4) 6) = Inr (sqrt 8)"
    by (simp add: dev_def avg_def Metric_add_def Metric_init_def py_truediv_def py_sqrt_def)
  from a d a3 d3 show ?thesis by blast
qed

subsection \<open>Paragraph\<close>

text \<open>
  C6, as amended: \<^verbatim>\<open>add\<close> sets the text to the line when the paragraph was empty, to
  the text followed directly by the line when the text ends with a hyphen, and to the
  text, one space and the line otherwise; it never removes the hyphen. So adding
  \<^verbatim>\<open>inter-\<close> and then \<^verbatim>\<open>national\<close> to a fresh paragraph gives \<^verbatim>\<open>inter-national\<close>,
  and adding \<^verbatim>\<open>hello\<close> and then \<^verbatim>\<open>world\<close> gives \<^verbatim>\<open>hello world\<close>.
\<close>

theorem Paragraph_add_text:
  "text_p (Paragraph_add p line) =
     (if text_p p = [] then line
      else if (\<exists>pre. text_p p = pre @ ''-'') then text_p p @ line
      else text_p p @ '' '' @ line)
   \<and> uncertain (Paragraph_add p line) = uncertain p
   \<and> text_p (Paragraph_add (Paragraph_add Paragraph_init ''inter-'') ''national'')
       = ''inter-national''
   \<and> text_p (Paragraph_add (Paragraph_add Paragraph_init ''hello'') ''world'')
       = ''hello world''"
proof -
  have "text_p (Paragraph_add p line) =
     (if text_p p = [] then line
      else if endswith (text_p p) ''-'' then text_p p @ line
      else text_p p @ '' '' @ line)"
    by (simp add: Paragraph_add_def Paragraph_empty_def)
  then have 1: "text_p (Paragraph_add p line) =
     (if text_p p = [] then line
      else if (\<exists>pre. text_p p = pre @ ''-'') then text_p p @ line
      else text_p p @ '' '' @ line)"
    by (simp only: endswith_iff)
  have 2: "uncertain (Paragraph_add p line) = uncertain p"
    by (simp add: Paragraph_add_def Let_def)
  have 3: "text_p (Paragraph_add (Paragraph_add Paragraph_init ''inter-'') ''national'')
       = ''inter-national''"
    by (simp add: Paragraph_add_def Paragraph_init_def Paragraph_empty_def endswith_def)
  have 4: "text_p (Paragraph_add (Paragraph_add Paragraph_init ''hello'') ''world'')
       = ''hello world''"
    by (simp add: Paragraph_add_def Paragraph_init_def Paragraph_empty_def endswith_def)
  from 1 2 3 4 show ?thesis by blast
qed

text \<open>
  C6 as it is written says that \<^verbatim>\<open>inter-\<close> and \<^verbatim>\<open>national\<close> give
  \<^verbatim>\<open>international\<close>. The hyphen stays.
\<close>

theorem Paragraph_add_hyphen_counterexample:
  "text_p (Paragraph_add (Paragraph_add Paragraph_init ''inter-'') ''national'')
     \<noteq> ''international''"
  by (simp add: Paragraph_add_def Paragraph_init_def Paragraph_empty_def endswith_def)

subsection \<open>The classification of a line\<close>



text \<open>
  C9: when the next line is the empty string, \<^verbatim>\<open>_is_last\<close> returns (true, true), as
  it does at the end of the input, whatever the metrics hold. Hence a line that is not
  blank and is followed by a blank line closes its paragraph, which is yielded with
  \<^verbatim>\<open>uncertain\<close> false, and the metrics are left as they were.
\<close>

theorem is_last_blank_next:
  "is_last j line (Some []) is_first = Inr (True, True)
   \<and> is_last j line None is_first = Inr (True, True)
   \<and> (line \<noteq> [] \<longrightarrow>
        body j p line (Some []) =
          Inr ([(Paragraph_add p line)\<lparr>uncertain := False\<rparr>], Paragraph_init, j))
   \<and> (line \<noteq> [] \<and> strip r = [] \<longrightarrow>
        loop j p line (r # rs) =
          (case loop j Paragraph_init [] rs of
             Inl e \<Rightarrow> Inl e
           | Inr (outs, j') \<Rightarrow> Inr ((Paragraph_add p line)\<lparr>uncertain := False\<rparr> # outs, j')))"
  by (simp add: is_last_blank is_last_None body_blank_certain split: sum.split prod.split)

theorem is_last_blank_next_witness:
  "''a.'' \<noteq> [] \<and> strip ''  '' = []
   \<and> is_last (Joiner_init [''a.'', ''  '']) ''a.'' (Some []) True = Inr (True, True)
   \<and> loop (Joiner_init [''a.'', ''  '']) Paragraph_init ''a.'' [''  ''] =
       Inr ([\<lparr>text_p = ''a.'', uncertain = False\<rparr>,
             \<lparr>text_p = [], uncertain = False\<rparr>, \<lparr>text_p = [], uncertain = False\<rparr>],
            Joiner_init [''a.'', ''  ''])"
proof -
  have h: "''a.'' \<noteq> []" "strip ''  '' = []"
    by (simp_all add: strip_def is_space_def)
  have b: "loop (Joiner_init [''a.'', ''  '']) Paragraph_init [] [] =
       Inr ([\<lparr>text_p = [], uncertain = False\<rparr>, \<lparr>text_p = [], uncertain = False\<rparr>],
            Joiner_init [''a.'', ''  ''])"
    by (simp add: body_def Paragraph_init_def Paragraph_empty_def)
  from is_last_blank_next [of "Joiner_init [''a.'', ''  '']" "''a.''" True Paragraph_init
      "''  ''" "[]"] h b
  show ?thesis
    by (simp add: Paragraph_add_def Paragraph_init_def Paragraph_empty_def)
qed

text \<open>
  C4: when a next line is there, the average of the middle lines exceeds the average of
  the first lines by more than twice the larger deviation, and the next line is longer
  than the mean of the two averages, \<^verbatim>\<open>_is_last\<close> returns (false, true), whatever the
  line is, so no list of marks is consulted. This holds in every state a joiner can be
  in (its metrics hold line lengths) and, when the next line is not empty, for any
  metrics at all.
\<close>

theorem is_last_next_too_long:
  assumes inv: "Joiner_inv j \<or> nl \<noteq> []"
    and av: "avg (first_m j) = Inr first" "avg (middle_m j) = Inr middle"
    and dv: "dev (first_m j) = Inr first_dev" "dev (middle_m j) = Inr middle_dev"
    and gap: "middle - first > 2 * max first_dev middle_dev"
    and long: "real (length nl) > (middle + first) / 2"
  shows "is_last j line (Some nl) is_first = Inr (False, True)"
proof -
  have "nl \<noteq> []"
  proof (cases "Joiner_inv j")
    case True
    with av have "0 \<le> first" "0 \<le> middle"
      by (auto simp add: Joiner_inv_def dest: Metric_inv_avg)
    with long show ?thesis by auto
  next
    case False
    with inv show ?thesis by simp
  qed
  with av dv gap long show ?thesis by (simp add: is_last_def)
qed

theorem is_last_next_too_long_witness:
  "iter (Joiner_init [''ab'', ''abcdefghij'', ''x'']) =
     Inr ([\<lparr>text_p = ''ab abcdefghij x'', uncertain = False\<rparr>],
          \<lparr>lines = [''ab'', ''abcdefghij'', ''x''], first_m = Metric_add Metric_init 2,
            middle_m = Metric_add Metric_init 10\<rparr>)
   \<and> Joiner_inv \<lparr>lines = [''ab'', ''abcdefghij'', ''x''], first_m = Metric_add Metric_init 2,
            middle_m = Metric_add Metric_init 10\<rparr>
   \<and> avg (Metric_add Metric_init 2) = Inr 2 \<and> avg (Metric_add Metric_init 10) = Inr 10
   \<and> dev (Metric_add Metric_init 2) = Inr 0 \<and> dev (Metric_add Metric_init 10) = Inr 0
   \<and> (10::real) - 2 > 2 * max 0 0 \<and> real (length ''abcdefghij'') > (10 + 2) / 2
   \<and> is_last \<lparr>lines = [''ab'', ''abcdefghij'', ''x''], first_m = Metric_add Metric_init 2,
            middle_m = Metric_add Metric_init 10\<rparr> ''ab'' (Some ''abcdefghij'') True
       = Inr (False, True)"
proof -
  let ?j = "\<lparr>lines = [''ab'', ''abcdefghij'', ''x''], first_m = Metric_add Metric_init 2,
            middle_m = Metric_add Metric_init 10\<rparr>"
  have r: "iter (Joiner_init [''ab'', ''abcdefghij'', ''x'']) =
     Inr ([\<lparr>text_p = ''ab abcdefghij x'', uncertain = False\<rparr>], ?j)"
    by (simp add: iter_def Joiner_init_def strip_def is_space_def body_def is_last_def
        Paragraph_init_def Paragraph_empty_def Paragraph_add_def endswith_def
        Metric_init_def Metric_add_def avg_def dev_def py_truediv_def py_sqrt_def
        END_MARKS_def POSSIBLE_END_MARKS_def)
  have i: "Joiner_inv ?j"
    by (simp add: Joiner_inv_def Metric_inv_def Metric_add_def Metric_init_def)
  have a: "avg (first_m ?j) = Inr 2" "avg (middle_m ?j) = Inr 10"
    by (simp_all add: Metric_add_def Metric_init_def avg_def py_truediv_def)
  have d: "dev (first_m ?j) = Inr 0" "dev (middle_m ?j) = Inr 0"
    by (simp_all add: Metric_add_def Metric_init_def avg_def dev_def py_truediv_def py_sqrt_def)
  have g: "(10::real) - 2 > 2 * max 0 0" by simp
  have l: "real (length ''abcdefghij'') > (10 + 2) / 2" by simp
  from i have i': "Joiner_inv ?j \<or> ''abcdefghij'' \<noteq> []" ..
  from is_last_next_too_long [OF i' a d g l, of "''ab''" True] r i a d g l
  show ?thesis by simp
qed




subsection \<open>A pass over the lines\<close>

text \<open>
  C1: one pass of a fresh joiner over the lines \<^verbatim>\<open>hello\<close>, the empty line and
  \<^verbatim>\<open>world\<close>. The claim expects the three paragraphs \<^verbatim>\<open>hello\<close>, empty, \<^verbatim>\<open>world\<close>.
  The pass yields four: at the blank line the paragraph under construction is empty,
  so it is yielded, and then a fresh empty paragraph is yielded as well. In every
  pass the number of empty paragraphs is twice the number of blank lines.
\<close>

theorem iter_hello_blank_world:
  "iter (Joiner_init [''hello'', '''', ''world'']) =
     Inr ([\<lparr>text_p = ''hello'', uncertain = False\<rparr>,
           \<lparr>text_p = '''', uncertain = False\<rparr>,
           \<lparr>text_p = '''', uncertain = False\<rparr>,
           \<lparr>text_p = ''world'', uncertain = False\<rparr>],
          Joiner_init [''hello'', '''', ''world''])
   \<and> (\<exists>ps j'. iter j = Inr (ps, j')
         \<and> length (filter Paragraph_empty ps)
             = 2 * length (filter (\<lambda>l. strip l = []) (lines j)))"
proof -
  have 1: "iter (Joiner_init [''hello'', '''', ''world'']) =
     Inr ([\<lparr>text_p = ''hello'', uncertain = False\<rparr>,
           \<lparr>text_p = '''', uncertain = False\<rparr>,
           \<lparr>text_p = '''', uncertain = False\<rparr>,
           \<lparr>text_p = ''world'', uncertain = False\<rparr>],
          Joiner_init [''hello'', '''', ''world''])"
    by (simp add: iter_def Joiner_init_def strip_def is_space_def body_def is_last_def
        Paragraph_init_def Paragraph_empty_def Paragraph_add_def)
  obtain ps j' where r: "iter j = Inr (ps, j')" using iter_total by blast
  from iter_blank_count [OF r] r 1 show ?thesis by blast
qed

text \<open>
  C2: for every joiner whose lines are not empty and hold no blank line, one pass
  returns, yields at least one paragraph, and the last paragraph has \<^verbatim>\<open>uncertain\<close>
  false, because \<^verbatim>\<open>_is_last\<close> returns (true, true) for a line with no next line,
  whatever the metrics hold.
\<close>

theorem iter_last_paragraph_certain:
  assumes "lines j \<noteq> []" and "\<forall>l\<in>set (lines j). strip l \<noteq> []"
  shows "(\<exists>ps j'. iter j = Inr (ps, j') \<and> ps \<noteq> [] \<and> \<not> uncertain (last ps))
         \<and> is_last j line None is_first = Inr (True, True)"
proof -
  from assms(1) obtain l ls where ls: "lines j = l # ls" by (cases "lines j") auto
  with assms(2) have "strip l \<noteq> []" "\<forall>r\<in>set ls. strip r \<noteq> []" by simp_all
  then have "\<exists>ps j'. loop j Paragraph_init (strip l) ls = Inr (ps, j') \<and> ps \<noteq> []
      \<and> \<not> uncertain (last ps)"
    by (rule loop_last_certain)
  with ls show ?thesis by (simp add: iter_def is_last_None)
qed

theorem iter_last_paragraph_certain_witness:
  "lines (Joiner_init [''a.'', ''b'']) \<noteq> [] \<and> strip ''a.'' \<noteq> [] \<and> strip ''b'' \<noteq> []
   \<and> iter (Joiner_init [''a.'', ''b'']) =
       Inr ([\<lparr>text_p = ''a.'', uncertain = True\<rparr>, \<lparr>text_p = ''b'', uncertain = False\<rparr>],
            Joiner_init [''a.'', ''b''])
   \<and> \<not> uncertain (last [\<lparr>text_p = ''a.'', uncertain = True\<rparr>,
                           \<lparr>text_p = ''b'', uncertain = False\<rparr>])"
proof -
  have h1: "lines (Joiner_init [''a.'', ''b'']) \<noteq> []"
    by (simp add: Joiner_init_def)
  have s: "strip ''a.'' \<noteq> []" "strip ''b'' \<noteq> []"
    by (simp_all add: strip_def is_space_def)
  then have h2: "\<forall>l\<in>set (lines (Joiner_init [''a.'', ''b''])). strip l \<noteq> []"
    by (simp add: Joiner_init_def)
  have r: "iter (Joiner_init [''a.'', ''b'']) =
       Inr ([\<lparr>text_p = ''a.'', uncertain = True\<rparr>, \<lparr>text_p = ''b'', uncertain = False\<rparr>],
            Joiner_init [''a.'', ''b''])"
    by (simp add: iter_def Joiner_init_def strip_def is_space_def body_def is_last_def
        Paragraph_init_def Paragraph_empty_def Paragraph_add_def endswith_def
        Metric_init_def avg_def dev_def py_sqrt_def END_MARKS_def)
  from iter_last_paragraph_certain [OF h1 h2, of "''b''" False] r h1 s
  show ?thesis by simp
qed

text \<open>
  C10: every paragraph that a pass yields with \<^verbatim>\<open>uncertain\<close> true has a text that is
  not empty; so every yielded paragraph whose text is empty has \<^verbatim>\<open>uncertain\<close> false.
\<close>

theorem iter_empty_text_certain:
  assumes "iter j = Inr (ps, j')"
  shows "(\<forall>q\<in>set ps. text_p q = [] \<longrightarrow> \<not> uncertain q)
         \<and> (\<forall>q\<in>set ps. uncertain q \<longrightarrow> text_p q \<noteq> [])"
proof -
  have "\<forall>q\<in>set ps. uncertain q \<longrightarrow> text_p q \<noteq> []"
  proof (cases "lines j")
    case Nil
    with assms show ?thesis by (simp add: iter_def)
  next
    case (Cons l ls)
    with assms have "loop j Paragraph_init (strip l) ls = Inr (ps, j')"
      by (simp add: iter_def)
    moreover have "\<not> uncertain Paragraph_init" by (simp add: Paragraph_init_def)
    ultimately show ?thesis by (rule loop_uncertain [rotated])
  qed
  then show ?thesis by blast
qed

theorem iter_empty_text_certain_witness:
  "iter (Joiner_init [''a.'', ''b'', '''']) =
     Inr ([\<lparr>text_p = ''a.'', uncertain = True\<rparr>, \<lparr>text_p = ''b'', uncertain = False\<rparr>,
           \<lparr>text_p = [], uncertain = False\<rparr>, \<lparr>text_p = [], uncertain = False\<rparr>],
          Joiner_init [''a.'', ''b'', ''''])
   \<and> list_all (\<lambda>q. text_p q = [] \<longrightarrow> \<not> uncertain q)
        [\<lparr>text_p = ''a.'', uncertain = True\<rparr>, \<lparr>text_p = ''b'', uncertain = False\<rparr>,
         \<lparr>text_p = [], uncertain = False\<rparr>, \<lparr>text_p = [], uncertain = False\<rparr>]"
proof -
  have r: "iter (Joiner_init [''a.'', ''b'', '''']) =
     Inr ([\<lparr>text_p = ''a.'', uncertain = True\<rparr>, \<lparr>text_p = ''b'', uncertain = False\<rparr>,
           \<lparr>text_p = [], uncertain = False\<rparr>, \<lparr>text_p = [], uncertain = False\<rparr>],
          Joiner_init [''a.'', ''b'', ''''])"
    by (simp add: iter_def Joiner_init_def strip_def is_space_def body_def is_last_def
        Paragraph_init_def Paragraph_empty_def Paragraph_add_def endswith_def
        Metric_init_def avg_def dev_def py_sqrt_def END_MARKS_def)
  from iter_empty_text_certain [OF r]
  have "list_all (\<lambda>q. text_p q = [] \<longrightarrow> \<not> uncertain q)
        [\<lparr>text_p = ''a.'', uncertain = True\<rparr>, \<lparr>text_p = ''b'', uncertain = False\<rparr>,
         \<lparr>text_p = [], uncertain = False\<rparr>, \<lparr>text_p = [], uncertain = False\<rparr>]"
    unfolding list_all_iff by blast
  with r show ?thesis by blast
qed

text \<open>
  C7: \<^verbatim>\<open>iterate(0)\<close> returns and leaves the joiner, and so the count, the sum and the
  stored values of both metrics, as they were; for every \<open>k > 0\<close>, \<^verbatim>\<open>iterate(k)\<close>
  returns, and the count of the first-line metric and the count of the middle-line
  metric are not below their values before the call.
\<close>

theorem iterate_counts:
  "iterate 0 j = Inr j
   \<and> (0 < k \<longrightarrow>
        (\<exists>j'. iterate k j = Inr j'
           \<and> count (first_m j) \<le> count (first_m j')
           \<and> count (middle_m j) \<le> count (middle_m j')))"
proof -
  obtain j' where j': "iterate_n (nat k) j = Inr j'"
    using iterate_n_total by blast
  from iterate_n_count [OF j'] j' show ?thesis
    by (auto simp add: iterate_def)
qed

theorem iterate_counts_witness:
  "(0::int) < 1
   \<and> iterate 1 (Joiner_init [''ab'', ''abcdefghij'', ''x'']) =
       Inr \<lparr>lines = [''ab'', ''abcdefghij'', ''x''], first_m = Metric_add Metric_init 2,
            middle_m = Metric_add Metric_init 10\<rparr>
   \<and> count (first_m (Joiner_init [''ab'', ''abcdefghij'', ''x''])) \<le> count (Metric_add Metric_init 2)
   \<and> count (middle_m (Joiner_init [''ab'', ''abcdefghij'', ''x''])) \<le> count (Metric_add Metric_init 10)"
proof -
  have r: "iter (Joiner_init [''ab'', ''abcdefghij'', ''x'']) =
     Inr ([\<lparr>text_p = ''ab abcdefghij x'', uncertain = False\<rparr>],
          \<lparr>lines = [''ab'', ''abcdefghij'', ''x''], first_m = Metric_add Metric_init 2,
            middle_m = Metric_add Metric_init 10\<rparr>)"
    by (simp add: iter_def Joiner_init_def strip_def is_space_def body_def is_last_def
        Paragraph_init_def Paragraph_empty_def Paragraph_add_def endswith_def
        Metric_init_def Metric_add_def avg_def dev_def py_truediv_def py_sqrt_def
        END_MARKS_def POSSIBLE_END_MARKS_def)
  then have i: "iterate 1 (Joiner_init [''ab'', ''abcdefghij'', ''x'']) =
       Inr \<lparr>lines = [''ab'', ''abcdefghij'', ''x''], first_m = Metric_add Metric_init 2,
            middle_m = Metric_add Metric_init 10\<rparr>"
    by (simp add: iterate_def)
  from iterate_counts [of "Joiner_init [''ab'', ''abcdefghij'', ''x'']" 1] i
  show ?thesis by simp
qed

end
